theory Spec2Isabelle
  imports Main "HOL-Library.Word"
begin

section \<open>Decoded values\<close>

text \<open>
  The MessagePack decoder hands \<^verbatim>\<open>interface{}\<close> values to the plugin. The dynamic
  types that \<^verbatim>\<open>in_forward.go\<close> tells apart are \<^verbatim>\<open>uint64\<close>, \<^verbatim>\<open>float64\<close>,
  \<^verbatim>\<open>[]byte\<close>, \<^verbatim>\<open>[]interface{}\<close> and \<^verbatim>\<open>map[string]interface{}\<close>; the remaining
  constructors stand for the other types a decoded value may have. A Go string and a Go
  byte slice are both sequences of bytes, and an Isabelle \<open>char\<close> is a byte. A
  \<^verbatim>\<open>float64\<close> is carried as its IEEE-754 bit pattern. A Go map is an association list
  (with distinct keys when it comes from Go); no theorem below needs the distinctness.
\<close>

type_synonym bytes = "char list"
type_synonym uint64 = "64 word"
type_synonym int64 = "64 word"
type_synonym float64 = "64 word"

datatype val =
    VNil
  | VBool bool
  | VUint64 uint64
  | VInt64 int64
  | VFloat64 float64
  | VBytes bytes
  | VString string
  | VSlice "val list"
  | VMap "(string \<times> val) list"

type_synonym gomap = "(string \<times> val) list"

text \<open>The conversion \<^verbatim>\<open>string(b)\<close> of a byte slice keeps the bytes.\<close>

definition string_of_bytes :: "bytes \<Rightarrow> string" where
  "string_of_bytes b = b"

section \<open>coerceInPlace\<close>

text \<open>
  \<^verbatim>\<open>coerceInPlace\<close> ranges over the pairs of a map: a \<^verbatim>\<open>[]byte\<close> value is replaced by
  its string, a nested map is coerced recursively, and every other value (a slice too)
  is left as it is. The Go function mutates the map; the model returns the new map.
  The values come from a decoder reading a byte stream, so no map is shared between
  two places, and the order in which \<^verbatim>\<open>range\<close> visits the keys does not matter: each
  key is rewritten on its own.
\<close>

function coerceInPlace :: "gomap \<Rightarrow> gomap" where
  "coerceInPlace [] = []"
| "coerceInPlace ((k, v) # data) =
     (case v of
        VBytes v_ \<Rightarrow> (k, VString (string_of_bytes v_)) # coerceInPlace data
      | VMap v_ \<Rightarrow> (k, VMap (coerceInPlace v_)) # coerceInPlace data
      | _ \<Rightarrow> (k, v) # coerceInPlace data)"
  by pat_completeness auto
termination
  by (relation "measure (size_list (size_prod (\<lambda>_. 0) size))") auto

section \<open>Errors, panics and type assertions\<close>

text \<open>
  A Go \<^verbatim>\<open>error\<close> is a value. The errors that reach \<^verbatim>\<open>decodeEntries\<close> are those of
  the codec (an end of stream, a \<^verbatim>\<open>net.Error\<close> with its \<^verbatim>\<open>Temporary()\<close> flag, or any
  other decoding error) and those the plugin builds itself with \<^verbatim>\<open>errors.New\<close>. A
  panic (a failed plain type assertion, an index out of range, an integer division by
  zero) is not an error value: nothing in the repository recovers from it, so it ends
  the process. Both are branches of the result type \<open>failure + 'a\<close>.
\<close>

datatype error =
    EOF
  | NetError bool
  | CodecError string
  | ErrorsNew string
  | UnknownType val

datatype panic = InterfaceConversion | IndexOutOfRange | DivideByZero

datatype failure = Panic panic | Err error

text \<open>\<^verbatim>\<open>xs[i]\<close> panics out of range.\<close>

definition index :: "val list \<Rightarrow> nat \<Rightarrow> failure + val" where
  "index xs i = (if i < length xs then Inr (xs ! i) else Inl (Panic IndexOutOfRange))"

text \<open>
  The comma-ok assertions \<^verbatim>\<open>x, ok := v.(T)\<close> give the zero value of \<^verbatim>\<open>T\<close> and
  \<^verbatim>\<open>false\<close> when the dynamic type differs.
\<close>

definition assert_bytes :: "val \<Rightarrow> bytes \<times> bool" where
  "assert_bytes v = (case v of VBytes b \<Rightarrow> (b, True) | _ \<Rightarrow> ([], False))"

definition assert_uint64 :: "val \<Rightarrow> uint64 \<times> bool" where
  "assert_uint64 v = (case v of VUint64 n \<Rightarrow> (n, True) | _ \<Rightarrow> (0, False))"

definition assert_map :: "val \<Rightarrow> gomap \<times> bool" where
  "assert_map v = (case v of VMap m \<Rightarrow> (m, True) | _ \<Rightarrow> ([], False))"

text \<open>The plain assertion \<^verbatim>\<open>v.([]interface{})\<close> panics when the dynamic type differs.\<close>

definition assert_slice :: "val \<Rightarrow> failure + val list" where
  "assert_slice v = (case v of VSlice xs \<Rightarrow> Inr xs | _ \<Rightarrow> Inl (Panic InterfaceConversion))"

section \<open>decodeTinyEntries\<close>

record FluentRecord =
  Tag :: string
  Timestamp :: uint64
  Data :: gomap

text \<open>
  The loop of \<^verbatim>\<open>decodeTinyEntries\<close> visits the elements in order and returns at the
  first one that fails; the slice \<^verbatim>\<open>retval\<close> is returned only when every element
  has been stored.
\<close>

fun decodeTinyEntries :: "bytes \<Rightarrow> val list \<Rightarrow> failure + FluentRecord list" where
  "decodeTinyEntries tag [] = Inr []"
| "decodeTinyEntries tag (entry' # rest) =
     (case assert_slice entry' of
        Inl p \<Rightarrow> Inl p
      | Inr entry \<Rightarrow>
          (case index entry 0 of
             Inl p \<Rightarrow> Inl p
           | Inr entry0 \<Rightarrow>
               (case assert_uint64 entry0 of
                  (timestamp, ok) \<Rightarrow>
                    if \<not> ok then Inl (Err (ErrorsNew ''Failed to decode timestamp field''))
                    else
                      (case index entry 1 of
                         Inl p \<Rightarrow> Inl p
                       | Inr entry1 \<Rightarrow>
                           (case assert_map entry1 of
                              (data, ok) \<Rightarrow>
                                if \<not> ok then Inl (Err (ErrorsNew ''Failed to decode data field''))
                                else
                                  (case decodeTinyEntries tag rest of
                                     Inl f \<Rightarrow> Inl f
                                   | Inr retval \<Rightarrow>
                                       Inr (\<lparr>Tag = string_of_bytes tag,
                                             Timestamp = timestamp,
                                             Data = coerceInPlace data\<rparr> # retval)))))))"

section \<open>decodeEntries\<close>

text \<open>
  Of the fields of \<^verbatim>\<open>ForwardInput\<close>, \<^verbatim>\<open>decodeEntries\<close> touches the counter
  \<^verbatim>\<open>entries\<close> only, an \<^verbatim>\<open>int64\<close> updated with \<^verbatim>\<open>atomic.AddInt64\<close> (which wraps).
\<close>

record ForwardInput =
  entries :: int64

text \<open>
  The type switch on \<^verbatim>\<open>v[1]\<close>. Two things come from outside the repository and are
  parameters: \<open>to_uint64\<close>, the conversion \<^verbatim>\<open>uint64(f)\<close> of a \<^verbatim>\<open>float64\<close> (the Go
  specification leaves its result to the implementation outside the range of
  \<^verbatim>\<open>uint64\<close>), and \<open>codec\<close>, the MessagePack decoder
  \<^verbatim>\<open>codec.NewDecoderBytes(b, c.codec).Decode(&entries)\<close> applied to the bytes of a
  packed payload. \<open>ok\<close> is the flag left by the assertion on the tag.
\<close>

definition decodeEntries_switch ::
  "(float64 \<Rightarrow> uint64) \<Rightarrow> (bytes \<Rightarrow> error + val list) \<Rightarrow> bytes \<Rightarrow> bool \<Rightarrow> val list \<Rightarrow> val
     \<Rightarrow> failure + FluentRecord list" where
  "decodeEntries_switch to_uint64 codec tag ok v timestamp_or_entries =
     (case timestamp_or_entries of
        VUint64 timestamp \<Rightarrow>
          (case index v 2 of
             Inl p \<Rightarrow> Inl p
           | Inr v2 \<Rightarrow>
               (case assert_map v2 of
                  (data, ok') \<Rightarrow>
                    if \<not> ok' then Inl (Err (ErrorsNew ''Failed to decode data field''))
                    else Inr [\<lparr>Tag = string_of_bytes tag,
                               Timestamp = timestamp,
                               Data = coerceInPlace data\<rparr>]))
      | VFloat64 f \<Rightarrow>
          (case index v 2 of
             Inl p \<Rightarrow> Inl p
           | Inr v2 \<Rightarrow>
               (case assert_map v2 of
                  (data, ok') \<Rightarrow>
                    if \<not> ok' then Inl (Err (ErrorsNew ''Failed to decode data field''))
                    else Inr [\<lparr>Tag = string_of_bytes tag,
                               Timestamp = to_uint64 f,
                               Data = data\<rparr>]))
      | VSlice es \<Rightarrow>
          if \<not> ok then Inl (Err (ErrorsNew ''Unexpected payload format''))
          else decodeTinyEntries tag es
      | VBytes b \<Rightarrow>
          (case codec b of
             Inl err \<Rightarrow> Inl (Err err)
           | Inr es \<Rightarrow> decodeTinyEntries tag es)
      | _ \<Rightarrow> Inl (Err (UnknownType timestamp_or_entries)))"

text \<open>
  \<open>decoded\<close> is the outcome of \<^verbatim>\<open>c.dec.Decode(&v)\<close>: an error, or the slice \<^verbatim>\<open>v\<close>
  as the decoder left it. The counter is increased on the successful path only, after
  the switch.
\<close>

definition decodeEntries ::
  "(float64 \<Rightarrow> uint64) \<Rightarrow> (bytes \<Rightarrow> error + val list) \<Rightarrow> error + val list \<Rightarrow> ForwardInput
     \<Rightarrow> (failure + FluentRecord list) \<times> ForwardInput" where
  "decodeEntries to_uint64 codec decoded input =
     (case decoded of
        Inl err \<Rightarrow> (Inl (Err err), input)
      | Inr v \<Rightarrow>
          (case index v 0 of
             Inl p \<Rightarrow> (Inl p, input)
           | Inr v0 \<Rightarrow>
               (case assert_bytes v0 of
                  (tag, ok) \<Rightarrow>
                    if \<not> ok then (Inl (Err (ErrorsNew ''Failed to decode tag field'')), input)
                    else
                      (case index v 1 of
                         Inl p \<Rightarrow> (Inl p, input)
                       | Inr v1 \<Rightarrow>
                           (case decodeEntries_switch to_uint64 codec tag ok v v1 of
                              Inl f \<Rightarrow> (Inl f, input)
                            | Inr retval \<Rightarrow>
                                (Inr retval,
                                 input\<lparr>entries := entries input + of_nat (length retval)\<rparr>))))))"

section \<open>handle\<close>

text \<open>
  The loop of \<^verbatim>\<open>handle\<close>, run on the outcomes of the successive \<^verbatim>\<open>Decode\<close> calls of
  one connection. The port is the list of the batches passed to \<^verbatim>\<open>Emit\<close>. A
  temporary \<^verbatim>\<open>net.Error\<close> continues the loop, any other error leaves it, a panic ends
  the process. When the outcomes at hand are used up the handler waits in \<^verbatim>\<open>Decode\<close>.
  Closing the connection and the registry of clients are left out: no statement below
  is about them.
\<close>

datatype handler = Waiting | Closed error | Crashed panic

definition is_temporary :: "error \<Rightarrow> bool" where
  "is_temporary err = (case err of NetError t \<Rightarrow> t | _ \<Rightarrow> False)"

fun handle ::
  "(float64 \<Rightarrow> uint64) \<Rightarrow> (bytes \<Rightarrow> error + val list) \<Rightarrow> (error + val list) list
     \<Rightarrow> ForwardInput \<times> FluentRecord list list
     \<Rightarrow> handler \<times> ForwardInput \<times> FluentRecord list list" where
  "handle to_uint64 codec [] (input, port) = (Waiting, input, port)"
| "handle to_uint64 codec (decoded # stream) (input, port) =
     (case decodeEntries to_uint64 codec decoded input of
        (Inl (Panic p), input') \<Rightarrow> (Crashed p, input', port)
      | (Inl (Err err), input') \<Rightarrow>
          if is_temporary err then handle to_uint64 codec stream (input', port)
          else (Closed err, input', port)
      | (Inr es, input') \<Rightarrow> handle to_uint64 codec stream (input', port @ [es]))"

section \<open>The load generator: Go integers\<close>

text \<open>
  The load generator computes with Go's \<^verbatim>\<open>int\<close>, here 64 bits wide, as an integer in
  the range of \<open>int_wrap\<close>. The quotient truncates towards zero and wraps in the one
  case where it overflows (the most negative value divided by \<open>-1\<close>); the remainder has
  the sign of the dividend; both panic on a zero divisor.
\<close>

definition int_wrap :: "int \<Rightarrow> int" where
  "int_wrap x = (x + 2 ^ 63) mod 2 ^ 64 - 2 ^ 63"

definition go_quo :: "int \<Rightarrow> int \<Rightarrow> failure + int" where
  "go_quo x y =
     (if y = 0 then Inl (Panic DivideByZero)
      else Inr (int_wrap (sgn x * sgn y * (\<bar>x\<bar> div \<bar>y\<bar>))))"

definition go_rem :: "int \<Rightarrow> int \<Rightarrow> failure + int" where
  "go_rem x y =
     (if y = 0 then Inl (Panic DivideByZero)
      else Inr (sgn x * (\<bar>x\<bar> mod \<bar>y\<bar>)))"

section \<open>Run: sharing the attempts among the goroutines\<close>

text \<open>
  The fields of \<^verbatim>\<open>IkBenchParams\<close> that the arithmetic and the control flow of
  \<^verbatim>\<open>Run\<close> read. (\<^verbatim>\<open>Host\<close>, \<^verbatim>\<open>Simple\<close>, \<^verbatim>\<open>Tag\<close> and \<^verbatim>\<open>Data\<close> only reach the
  network calls, whose outcomes are events below.)
\<close>

record IkBenchParams =
  NumberOfRecordsToSend :: int
  NumberOfRecordsSentAtOnce :: int
  Concurrency :: int
  MaxRetryCount :: int

text \<open>
  The first loop of \<^verbatim>\<open>Run\<close>: it starts one goroutine per index below
  \<^verbatim>\<open>Concurrency\<close> and passes it \<^verbatim>\<open>(id, attempts)\<close>. The list holds these arguments
  in the order of the calls. The counter stays below \<^verbatim>\<open>Concurrency\<close>, so \<open>i + 1\<close>
  does not overflow.
\<close>

function Run_loop :: "int \<Rightarrow> int \<Rightarrow> int \<Rightarrow> int \<Rightarrow> (int \<times> int) list" where
  "Run_loop i concurrency numberOfAttemptsPerProc remainder =
     (if i < concurrency then
        (let r = (if i < remainder then 1 else 0)
         in (i, int_wrap (numberOfAttemptsPerProc + r))
              # Run_loop (i + 1) concurrency numberOfAttemptsPerProc remainder)
      else [])"
  by pat_completeness auto
termination
  by (relation "measure (\<lambda>(i, concurrency, _, _). nat (concurrency - i))") auto

declare Run_loop.simps [simp del]

definition Run_spawn :: "IkBenchParams \<Rightarrow> failure + (int \<times> int) list" where
  "Run_spawn params =
     (case go_quo (NumberOfRecordsToSend params) (NumberOfRecordsSentAtOnce params) of
        Inl p \<Rightarrow> Inl p
      | Inr numberOfAttempts \<Rightarrow>
          (case go_quo numberOfAttempts (Concurrency params) of
             Inl p \<Rightarrow> Inl p
           | Inr numberOfAttemptsPerProc \<Rightarrow>
               (case go_rem numberOfAttempts (Concurrency params) of
                  Inl p \<Rightarrow> Inl p
                | Inr remainder \<Rightarrow>
                    Inr (Run_loop 0 (Concurrency params) numberOfAttemptsPerProc remainder))))"

section \<open>Run: the goroutines\<close>

text \<open>
  A goroutine of \<^verbatim>\<open>Run\<close> is either about to dial (with its \<^verbatim>\<open>retryCount\<close>), or
  about to send attempt \<^verbatim>\<open>i\<close> on its connection, or past the loops, where it signals
  on \<^verbatim>\<open>sync\<close>. The network decides each step: a dial fails or succeeds; a send
  succeeds, fails with a temporary \<^verbatim>\<open>net.Error\<close>, or fails otherwise.
\<close>

datatype position = Dialing int | Sending int | Signalled

datatype net_event = DialError | DialOk | SendOk | SendTemporary | SendError

record goroutine =
  attempts :: int
  position :: position

text \<open>
  One step of the goroutine's body. \<open>None\<close> is \<^verbatim>\<open>log.Fatal\<close>, which prints and calls
  \<^verbatim>\<open>os.Exit(1)\<close>. An event that does not belong to the position leaves it as it is.
\<close>

fun goroutine_step :: "int \<Rightarrow> position \<Rightarrow> net_event \<Rightarrow> position option" where
  "goroutine_step n (Dialing retryCount) DialError =
     (let retryCount' = int_wrap (retryCount - 1)
      in if retryCount' < 0 then None else Some (Dialing retryCount'))"
| "goroutine_step n (Dialing retryCount) DialOk =
     Some (if 0 < n then Sending 0 else Signalled)"
| "goroutine_step n (Sending i) SendOk =
     Some (if int_wrap (i + 1) < n then Sending (int_wrap (i + 1)) else Signalled)"
| "goroutine_step n (Sending i) SendTemporary = Some (Sending i)"
| "goroutine_step n (Sending i) SendError = Some Signalled"
| "goroutine_step n pos ev = Some pos"

text \<open>
  The process is the list of its goroutines, by \<^verbatim>\<open>id\<close>, until one of them exits it.
  A schedule is a list of pairs: which goroutine moves, and what the network answers.
\<close>

datatype process = Running "goroutine list" | Exited

fun process_step :: "process \<Rightarrow> nat \<times> net_event \<Rightarrow> process" where
  "process_step Exited (k, ev) = Exited"
| "process_step (Running gs) (k, ev) =
     (if k < length gs then
        (case goroutine_step (attempts (gs ! k)) (position (gs ! k)) ev of
           None \<Rightarrow> Exited
         | Some pos \<Rightarrow> Running (gs[k := (gs ! k)\<lparr>position := pos\<rparr>]))
      else Running gs)"

text \<open>
  \<^verbatim>\<open>Run\<close> on a schedule: the goroutines start with
  \<^verbatim>\<open>retryCount := params.MaxRetryCount\<close>.
\<close>

definition Run :: "IkBenchParams \<Rightarrow> (nat \<times> net_event) list \<Rightarrow> failure + process" where
  "Run params schedule =
     (case Run_spawn params of
        Inl p \<Rightarrow> Inl p
      | Inr spawned \<Rightarrow>
          Inr (foldl process_step
                 (Running (map (\<lambda>(id, n). \<lparr>attempts = n,
                                            position = Dialing (MaxRetryCount params)\<rparr>) spawned))
                 schedule))"

definition signalled :: "process \<Rightarrow> nat \<Rightarrow> bool" where
  "signalled p k =
     (case p of
        Exited \<Rightarrow> False
      | Running gs \<Rightarrow> k < length gs \<and> position (gs ! k) = Signalled)"

section \<open>Where byte sequences occur in a value\<close>

text \<open>
  \<open>bytes_free v\<close>: no \<^verbatim>\<open>[]byte\<close> occurs anywhere in \<open>v\<close>, neither in the slices nor
  in the maps nested in it.
\<close>

function bytes_free :: "val \<Rightarrow> bool"
  and bytes_free_slice :: "val list \<Rightarrow> bool"
  and bytes_free_map :: "gomap \<Rightarrow> bool" where
  "bytes_free VNil = True"
| "bytes_free (VBool b) = True"
| "bytes_free (VUint64 n) = True"
| "bytes_free (VInt64 n) = True"
| "bytes_free (VFloat64 f) = True"
| "bytes_free (VBytes b) = False"
| "bytes_free (VString s) = True"
| "bytes_free (VSlice xs) = bytes_free_slice xs"
| "bytes_free (VMap m) = bytes_free_map m"
| "bytes_free_slice [] = True"
| "bytes_free_slice (x # xs) = (bytes_free x \<and> bytes_free_slice xs)"
| "bytes_free_map [] = True"
| "bytes_free_map ((k, v) # m) = (bytes_free v \<and> bytes_free_map m)"
  by pat_completeness auto
termination
  by (relation "measure (case_sum size
                  (case_sum (size_list size) (size_list (size_prod (\<lambda>_. 0) size))))") auto

text \<open>
  \<open>bytes_free_outside_slices m\<close>: no \<^verbatim>\<open>[]byte\<close> is a value of \<open>m\<close> or of a map
  reached from \<open>m\<close> through maps only; what the slices hold is not looked at.
\<close>

function bytes_free_outside_slices :: "gomap \<Rightarrow> bool" where
  "bytes_free_outside_slices [] = True"
| "bytes_free_outside_slices ((k, v) # m) =
     (case v of
        VBytes b \<Rightarrow> False
      | VMap m' \<Rightarrow> bytes_free_outside_slices m' \<and> bytes_free_outside_slices m
      | _ \<Rightarrow> bytes_free_outside_slices m)"
  by pat_completeness auto
termination
  by (relation "measure (size_list (size_prod (\<lambda>_. 0) size))") auto

text \<open>
  \<open>slices_bytes_free m\<close>: every slice that is a value of \<open>m\<close>, or of a map reached from
  \<open>m\<close> through maps only, is free of \<^verbatim>\<open>[]byte\<close> at every depth.
\<close>

function slices_bytes_free :: "gomap \<Rightarrow> bool" where
  "slices_bytes_free [] = True"
| "slices_bytes_free ((k, v) # m) =
     (case v of
        VSlice xs \<Rightarrow> bytes_free_slice xs \<and> slices_bytes_free m
      | VMap m' \<Rightarrow> slices_bytes_free m' \<and> slices_bytes_free m
      | _ \<Rightarrow> slices_bytes_free m)"
  by pat_completeness auto
termination
  by (relation "measure (size_list (size_prod (\<lambda>_. 0) size))") auto

section \<open>Idempotence of the normalisation\<close>

text \<open>
  Claim C9. Normalisation is idempotent: for every data mapping, applying
  \<open>coerceInPlace\<close> twice yields the same mapping as applying it once.
\<close>

theorem coerceInPlace_idempotent:
  "coerceInPlace (coerceInPlace data) = coerceInPlace data"
  by (induction data rule: coerceInPlace.induct) (auto split: val.splits)

section \<open>What the normalisation converts\<close>

text \<open>
  Claim C2, as stated, fails: a \<^verbatim>\<open>[]byte\<close> inside a slice survives \<open>coerceInPlace\<close>,
  which has no case for slices.
\<close>

theorem coerceInPlace_keeps_bytes_in_slices:
  "coerceInPlace [(''k'', VSlice [VBytes ''b''])] = [(''k'', VSlice [VBytes ''b''])]
   \<and> \<not> bytes_free (VMap (coerceInPlace [(''k'', VSlice [VBytes ''b''])]))"
  by simp

text \<open>
  Claim C2, amended. For every data mapping, when \<open>coerceInPlace\<close> returns, every byte
  sequence that was a value of the mapping, or of a mapping nested in it through
  mappings, has been converted to its text, under the same key and at the same place,
  with every key and every other value kept as it was; so no byte sequence remains
  there. A slice is passed through unchanged wherever it stands, so a byte sequence
  remains somewhere in the result exactly when the input held one inside a slice.
\<close>

theorem coerceInPlace_converts_outside_slices:
  "coerceInPlace data =
      map (\<lambda>(key, v). (key, case v of
                                 VBytes v_ \<Rightarrow> VString (string_of_bytes v_)
                               | VMap v_ \<Rightarrow> VMap (coerceInPlace v_)
                               | _ \<Rightarrow> v)) data
   \<and> coerceInPlace (pre @ (k, VBytes b) # post)
       = coerceInPlace pre @ (k, VString b) # coerceInPlace post
   \<and> coerceInPlace (pre @ (k, VMap m) # post)
       = coerceInPlace pre @ (k, VMap (coerceInPlace m)) # coerceInPlace post
   \<and> coerceInPlace (pre @ (k, VSlice xs) # post)
       = coerceInPlace pre @ (k, VSlice xs) # coerceInPlace post
   \<and> bytes_free_outside_slices (coerceInPlace data)
   \<and> (bytes_free_map (coerceInPlace data) \<longleftrightarrow> slices_bytes_free data)"
proof -
  have pointwise: "coerceInPlace d =
      map (\<lambda>(key, v). (key, case v of
                                 VBytes v_ \<Rightarrow> VString (string_of_bytes v_)
                               | VMap v_ \<Rightarrow> VMap (coerceInPlace v_)
                               | _ \<Rightarrow> v)) d" for d
    by (induction d rule: coerceInPlace.induct) (auto split: val.splits)
  have append: "coerceInPlace (d @ d') = coerceInPlace d @ coerceInPlace d'" for d d'
    by (induction d rule: coerceInPlace.induct) (auto split: val.splits)
  have outside: "bytes_free_outside_slices (coerceInPlace data)"
    by (induction data rule: coerceInPlace.induct) (auto split: val.splits)
  have remains: "bytes_free_map (coerceInPlace data) \<longleftrightarrow> slices_bytes_free data"
    by (induction data rule: coerceInPlace.induct) (auto split: val.splits)
  show ?thesis
  proof (intro conjI)
    show "coerceInPlace data =
      map (\<lambda>(key, v). (key, case v of
                                 VBytes v_ \<Rightarrow> VString (string_of_bytes v_)
                               | VMap v_ \<Rightarrow> VMap (coerceInPlace v_)
                               | _ \<Rightarrow> v)) data"
      by (rule pointwise)
    show "coerceInPlace (pre @ (k, VBytes b) # post)
        = coerceInPlace pre @ (k, VString b) # coerceInPlace post"
      by (simp add: append string_of_bytes_def)
    show "coerceInPlace (pre @ (k, VMap m) # post)
        = coerceInPlace pre @ (k, VMap (coerceInPlace m)) # coerceInPlace post"
      by (simp add: append)
    show "coerceInPlace (pre @ (k, VSlice xs) # post)
        = coerceInPlace pre @ (k, VSlice xs) # coerceInPlace post"
      by (simp add: append)
    show "bytes_free_outside_slices (coerceInPlace data)"
      by (rule outside)
    show "bytes_free_map (coerceInPlace data) \<longleftrightarrow> slices_bytes_free data"
      by (rule remains)
  qed
qed

section \<open>Forward frames\<close>

lemma decodeTinyEntries_pairs:
  "decodeTinyEntries tag (map (\<lambda>(t, d). VSlice [VUint64 t, VMap d]) ps)
     = Inr (map (\<lambda>(t, d). \<lparr>Tag = string_of_bytes tag, Timestamp = t,
                                Data = coerceInPlace d\<rparr>) ps)"
  by (induction ps) (auto simp: index_def assert_slice_def assert_uint64_def assert_map_def)

text \<open>
  Claim C6. For every valid Forward frame with N well-formed [timestamp, data] pairs,
  \<open>decodeEntries\<close> yields exactly N entries, in the order of the pairs, every entry
  carrying the frame's tag (the i-th entry has the timestamp and the normalised data of
  the i-th pair), and the counter grows by N. The frame may or may not have a third
  element.
\<close>

theorem decodeEntries_forward:
  "decodeEntries to_uint64 codec
      (Inr (VBytes tag # VSlice (map (\<lambda>(t, d). VSlice [VUint64 t, VMap d]) ps) # third))
      input
   = (Inr (map (\<lambda>(t, d). \<lparr>Tag = string_of_bytes tag, Timestamp = t,
                                Data = coerceInPlace d\<rparr>) ps),
      input\<lparr>entries := entries input + of_nat (length ps)\<rparr>)"
  by (simp add: decodeEntries_def decodeEntries_switch_def index_def assert_bytes_def
      decodeTinyEntries_pairs)

text \<open>
  Claim C1 fails on the code: an element of a Forward frame that is not a sequence, or
  that is a sequence of fewer than two elements, makes \<open>decodeEntries\<close> panic instead
  of returning an error, and an element with more than two elements is accepted.
\<close>

theorem decodeEntries_malformed_pair_panics:
  "decodeEntries to_uint64 codec (Inr [VBytes ''t'', VSlice [VUint64 7], VNil]) input
     = (Inl (Panic InterfaceConversion), input)
   \<and> decodeEntries to_uint64 codec (Inr [VBytes ''t'', VSlice [VSlice []], VNil]) input
     = (Inl (Panic IndexOutOfRange), input)
   \<and> decodeEntries to_uint64 codec (Inr [VBytes ''t'', VSlice [VSlice [VUint64 7]], VNil]) input
     = (Inl (Panic IndexOutOfRange), input)
   \<and> decodeEntries to_uint64 codec
        (Inr [VBytes ''t'', VSlice [VSlice [VUint64 7, VMap [], VNil]], VNil]) input
     = (Inr [\<lparr>Tag = ''t'', Timestamp = 7, Data = []\<rparr>],
        input\<lparr>entries := entries input + 1\<rparr>)"
  by (simp add: decodeEntries_def decodeEntries_switch_def index_def assert_bytes_def
      assert_slice_def assert_uint64_def assert_map_def string_of_bytes_def)

section \<open>Message frames with a floating-point timestamp\<close>

text \<open>
  Claim C3 fails on the code: the \<^verbatim>\<open>float64\<close> branch yields one entry with the
  converted timestamp but does not call \<open>coerceInPlace\<close>, so the byte sequences of the
  data stay, while the \<^verbatim>\<open>uint64\<close> branch converts them.
\<close>

theorem decodeEntries_float_not_normalised:
  "decodeEntries to_uint64 codec
      (Inr [VBytes ''t'', VFloat64 f, VMap [(''k'', VBytes ''v'')]]) input
     = (Inr [\<lparr>Tag = ''t'', Timestamp = to_uint64 f, Data = [(''k'', VBytes ''v'')]\<rparr>],
        input\<lparr>entries := entries input + 1\<rparr>)
   \<and> decodeEntries to_uint64 codec
      (Inr [VBytes ''t'', VUint64 n, VMap [(''k'', VBytes ''v'')]]) input
     = (Inr [\<lparr>Tag = ''t'', Timestamp = n, Data = [(''k'', VString ''v'')]\<rparr>],
        input\<lparr>entries := entries input + 1\<rparr>)"
  by (simp add: decodeEntries_def decodeEntries_switch_def index_def assert_bytes_def
      assert_map_def string_of_bytes_def)

section \<open>PackedForward frames\<close>

text \<open>
  Claim C5. For every sequence of N [timestamp, data] pairs, decoding a PackedForward
  frame (whose byte sequence the codec decodes to the pairs) gives exactly the outcome
  of decoding the Forward frame that carries the same pairs inline with the same tag:
  the same entries and the same counter. The equality holds for whatever sequence the
  byte sequence decodes to.
\<close>

theorem decodeEntries_packed_eq_forward:
  assumes "codec b = Inr es"
  shows "decodeEntries to_uint64 codec (Inr (VBytes tag # VBytes b # third)) input
       = decodeEntries to_uint64 codec (Inr (VBytes tag # VSlice es # third)) input"
  using assms
  by (simp add: decodeEntries_def decodeEntries_switch_def index_def assert_bytes_def)

theorem decodeEntries_packed_eq_forward_witness:
  "(\<lambda>b. if b = ''packed'' then Inr [VSlice [VUint64 1, VMap [(''a'', VBytes ''x'')]],
                                       VSlice [VUint64 2, VMap [(''a'', VUint64 2)]]]
         else Inl (CodecError ''unexpected'')) ''packed''
     = Inr [VSlice [VUint64 1, VMap [(''a'', VBytes ''x'')]],
            VSlice [VUint64 2, VMap [(''a'', VUint64 2)]]]
   \<and> decodeEntries (\<lambda>f. 0)
       (\<lambda>b. if b = ''packed'' then Inr [VSlice [VUint64 1, VMap [(''a'', VBytes ''x'')]],
                                       VSlice [VUint64 2, VMap [(''a'', VUint64 2)]]]
         else Inl (CodecError ''unexpected''))
       (Inr [VBytes ''t'', VBytes ''packed'']) \<lparr>entries = 0\<rparr>
     = (Inr [\<lparr>Tag = ''t'', Timestamp = 1, Data = [(''a'', VString ''x'')]\<rparr>,
             \<lparr>Tag = ''t'', Timestamp = 2, Data = [(''a'', VUint64 2)]\<rparr>],
        \<lparr>entries = 2\<rparr>)"
  using decodeEntries_packed_eq_forward
    [of "\<lambda>b. if b = ''packed'' then Inr [VSlice [VUint64 1, VMap [(''a'', VBytes ''x'')]],
                                            VSlice [VUint64 2, VMap [(''a'', VUint64 2)]]]
              else Inl (CodecError ''unexpected'')"
        "''packed''"
        "[VSlice [VUint64 1, VMap [(''a'', VBytes ''x'')]],
          VSlice [VUint64 2, VMap [(''a'', VUint64 2)]]]"
        "\<lambda>f. 0" "''t''" "[]" "\<lparr>entries = 0\<rparr>"]
  by (simp add: decodeEntries_def decodeEntries_switch_def index_def assert_bytes_def
      assert_slice_def assert_uint64_def assert_map_def string_of_bytes_def)

section \<open>Timestamps inside pairs\<close>

lemma decodeTinyEntries_bad_timestamp:
  assumes "\<forall>e \<in> set pre. \<exists>ys. e = VSlice ys \<and> 2 \<le> length ys"
    and "\<forall>t. x \<noteq> VUint64 t"
  shows "decodeTinyEntries tag (pre @ VSlice (x # xs) # post)
           = Inl (Err (ErrorsNew ''Failed to decode timestamp field''))
       \<or> decodeTinyEntries tag (pre @ VSlice (x # xs) # post)
           = Inl (Err (ErrorsNew ''Failed to decode data field''))"
  using assms
proof (induction pre)
  case Nil
  then show ?case
    by (cases x) (simp_all add: index_def assert_slice_def assert_uint64_def)
next
  case (Cons e pre)
  then obtain ys where e: "e = VSlice ys" and len: "2 \<le> length ys"
    by auto
  from Cons have IH:
    "decodeTinyEntries tag (pre @ VSlice (x # xs) # post)
           = Inl (Err (ErrorsNew ''Failed to decode timestamp field''))
       \<or> decodeTinyEntries tag (pre @ VSlice (x # xs) # post)
           = Inl (Err (ErrorsNew ''Failed to decode data field''))"
    by simp
  from len IH show ?case
    by (auto simp: e index_def assert_slice_def assert_uint64_def assert_map_def
        split: val.splits prod.splits sum.splits)
qed

text \<open>
  Claim C10. Within a Forward or a PackedForward frame, a pair whose timestamp is a
  floating-point value, or of any type other than \<^verbatim>\<open>uint64\<close>, makes decoding fail with
  an error value and leaves the counter as it was: the conversion of a float applies to
  the second element of a Message frame only. The elements before the pair are
  sequences of at least two elements; what follows the pair is arbitrary. The error is
  the timestamp error of this pair, unless an earlier pair already failed on its data.
\<close>

theorem pair_timestamp_not_coerced:
  assumes "\<forall>e \<in> set pre. \<exists>ys. e = VSlice ys \<and> 2 \<le> length ys"
    and "\<forall>t. x \<noteq> VUint64 t"
    and "es = pre @ VSlice (x # xs) # post"
  shows "(\<exists>msg \<in> {''Failed to decode timestamp field'', ''Failed to decode data field''}.
            decodeEntries to_uint64 codec (Inr (VBytes tag # VSlice es # third)) input
              = (Inl (Err (ErrorsNew msg)), input))
       \<and> (codec b = Inr es \<longrightarrow>
           (\<exists>msg \<in> {''Failed to decode timestamp field'', ''Failed to decode data field''}.
            decodeEntries to_uint64 codec (Inr (VBytes tag # VBytes b # third)) input
              = (Inl (Err (ErrorsNew msg)), input)))"
proof -
  from decodeTinyEntries_bad_timestamp [OF assms(1,2), of tag xs post] assms(3)
  have "decodeTinyEntries tag es = Inl (Err (ErrorsNew ''Failed to decode timestamp field''))
      \<or> decodeTinyEntries tag es = Inl (Err (ErrorsNew ''Failed to decode data field''))"
    by simp
  then show ?thesis
    by (auto simp: decodeEntries_def decodeEntries_switch_def index_def assert_bytes_def)
qed

theorem pair_timestamp_not_coerced_witness:
  "(\<exists>ys. VSlice [VUint64 1, VMap []] = VSlice ys \<and> 2 \<le> length ys)
   \<and> (\<forall>t. VFloat64 0x3FF8000000000000 \<noteq> VUint64 t)
   \<and> (\<lambda>b. if b = ''packed'' then Inr [VSlice [VUint64 1, VMap []],
                                        VSlice [VFloat64 0x3FF8000000000000, VMap []]]
           else Inl (CodecError ''unexpected'')) ''packed''
       = Inr ([VSlice [VUint64 1, VMap []]]
              @ VSlice (VFloat64 0x3FF8000000000000 # [VMap []]) # [])
   \<and> decodeEntries (\<lambda>f. 1)
        (\<lambda>b. if b = ''packed'' then Inr [VSlice [VUint64 1, VMap []],
                                        VSlice [VFloat64 0x3FF8000000000000, VMap []]]
           else Inl (CodecError ''unexpected''))
        (Inr [VBytes ''t'', VSlice [VSlice [VUint64 1, VMap []],
                                    VSlice [VFloat64 0x3FF8000000000000, VMap []]]])
        \<lparr>entries = 0\<rparr>
       = (Inl (Err (ErrorsNew ''Failed to decode timestamp field'')), \<lparr>entries = 0\<rparr>)
   \<and> decodeEntries (\<lambda>f. 1)
        (\<lambda>b. if b = ''packed'' then Inr [VSlice [VUint64 1, VMap []],
                                        VSlice [VFloat64 0x3FF8000000000000, VMap []]]
           else Inl (CodecError ''unexpected''))
        (Inr [VBytes ''t'', VBytes ''packed'']) \<lparr>entries = 0\<rparr>
       = (Inl (Err (ErrorsNew ''Failed to decode timestamp field'')), \<lparr>entries = 0\<rparr>)"
  using pair_timestamp_not_coerced
    [of "[VSlice [VUint64 1, VMap []]]" "VFloat64 0x3FF8000000000000"
        "[VSlice [VUint64 1, VMap []], VSlice [VFloat64 0x3FF8000000000000, VMap []]]"
        "[VMap []]" "[]"
        "\<lambda>f. 1"
        "\<lambda>b. if b = ''packed'' then Inr [VSlice [VUint64 1, VMap []],
                                          VSlice [VFloat64 0x3FF8000000000000, VMap []]]
              else Inl (CodecError ''unexpected'')"
        "''t''" "[]" "\<lparr>entries = 0\<rparr>" "''packed''"]
  by (simp add: decodeEntries_def decodeEntries_switch_def index_def assert_bytes_def
      assert_slice_def assert_uint64_def assert_map_def string_of_bytes_def)

section \<open>The counter of entries\<close>

lemma decodeEntries_Inr:
  "decodeEntries to_uint64 codec decoded input = (Inr retval, input') \<Longrightarrow>
     input' = input\<lparr>entries := entries input + of_nat (length retval)\<rparr>"
  by (auto simp: decodeEntries_def split: sum.splits prod.splits if_splits)

lemma decodeEntries_Inl:
  "decodeEntries to_uint64 codec decoded input = (Inl f, input') \<Longrightarrow> input' = input"
  by (auto simp: decodeEntries_def split: sum.splits prod.splits if_splits)

lemma handle_entries:
  "handle to_uint64 codec stream (input, port) = (h, input', port') \<Longrightarrow>
     \<exists>batches. port' = port @ batches \<and>
        entries input' = entries input + of_nat (sum_list (map length batches))"
proof (induction stream arbitrary: input port)
  case Nil
  then show ?case by simp
next
  case (Cons decoded stream)
  obtain r i1 where d: "decodeEntries to_uint64 codec decoded input = (r, i1)"
    by force
  show ?case
  proof (cases r)
    case (Inl f)
    with d have i1: "i1 = input"
      by (simp add: decodeEntries_Inl)
    show ?thesis
    proof (cases f)
      case (Panic p)
      with Cons.prems d Inl i1 show ?thesis by simp
    next
      case (Err err)
      show ?thesis
      proof (cases "is_temporary err")
        case True
        with Cons.prems d Inl Err i1
        have "handle to_uint64 codec stream (input, port) = (h, input', port')"
          by simp
        from Cons.IH [OF this] show ?thesis .
      next
        case False
        with Cons.prems d Inl Err i1 show ?thesis by simp
      qed
    qed
  next
    case (Inr es)
    with d have i1: "i1 = input\<lparr>entries := entries input + of_nat (length es)\<rparr>"
      by (simp add: decodeEntries_Inr)
    from Cons.prems d Inr
    have "handle to_uint64 codec stream (i1, port @ [es]) = (h, input', port')"
      by simp
    from Cons.IH [OF this] obtain bs where bs: "port' = (port @ [es]) @ bs"
      "entries input' = entries i1 + of_nat (sum_list (map length bs))"
      by blast
    have "port' = port @ (es # bs)"
      using bs by simp
    moreover have "entries input' = entries input + of_nat (sum_list (map length (es # bs)))"
      using bs i1 by simp
    ultimately show ?thesis by blast
  qed
qed

lemma sint_add_of_nat:
  fixes w :: "64 word"
  assumes "sint w + int n < 2 ^ 63"
  shows "sint (w + of_nat n) = sint w + int n"
proof -
  have lo: "- (2 ^ 63) \<le> sint w"
    using sint_ge [of w] by simp
  have eq: "w + of_nat n = word_of_int (sint w + int n)"
    by simp
  have "sint (w + of_nat n) = sint (word_of_int (sint w + int n) :: 64 word)"
    by (simp only: eq)
  also have "\<dots> = signed_take_bit (LENGTH(64) - 1) (sint w + int n)"
    by (rule sint_sbintrunc')
  also have "\<dots> = sint w + int n"
    using lo assms by (intro signed_take_bit_int_eq_self) simp_all
  finally show ?thesis .
qed

text \<open>
  Claim C7. Every successful \<open>decodeEntries\<close> call increases \<^verbatim>\<open>entries\<close> by exactly
  the number of entries it returns, and a failing call (an error or a panic) leaves it
  unchanged; hence, after \<open>handle\<close> has processed a stream of frames and emitted the
  batches \<open>k1, k2, \<dots>\<close>, the counter has grown by the sum of their lengths, and it has
  not decreased. The additions are those of \<^verbatim>\<open>int64\<close>: the equalities between counters
  hold as they are, and the signed reading and the monotonicity hold while the sum
  stays in the range of \<^verbatim>\<open>int64\<close>.
\<close>

theorem totalEntries_accounting:
  "(decodeEntries to_uint64 codec decoded input = (Inr retval, input') \<longrightarrow>
      entries input' = entries input + of_nat (length retval)
      \<and> (sint (entries input) + int (length retval) < 2 ^ 63 \<longrightarrow>
           sint (entries input') = sint (entries input) + int (length retval)))
   \<and> (decodeEntries to_uint64 codec decoded input = (Inl f, input') \<longrightarrow>
      entries input' = entries input)
   \<and> (handle to_uint64 codec stream (input, port) = (h, input'', port') \<longrightarrow>
      (\<exists>batches. port' = port @ batches
         \<and> entries input'' = entries input + of_nat (sum_list (map length batches))
         \<and> (sint (entries input) + int (sum_list (map length batches)) < 2 ^ 63 \<longrightarrow>
              sint (entries input'') = sint (entries input) + int (sum_list (map length batches))
              \<and> sint (entries input) \<le> sint (entries input''))))"
proof (intro conjI impI)
  assume a: "decodeEntries to_uint64 codec decoded input = (Inr retval, input')"
  from decodeEntries_Inr [OF a]
  show e: "entries input' = entries input + of_nat (length retval)"
    by simp
  assume "sint (entries input) + int (length retval) < 2 ^ 63"
  from sint_add_of_nat [OF this] e
  show "sint (entries input') = sint (entries input) + int (length retval)"
    by simp
next
  assume "decodeEntries to_uint64 codec decoded input = (Inl f, input')"
  from decodeEntries_Inl [OF this] show "entries input' = entries input"
    by simp
next
  assume "handle to_uint64 codec stream (input, port) = (h, input'', port')"
  from handle_entries [OF this] obtain batches where b: "port' = port @ batches"
    "entries input'' = entries input + of_nat (sum_list (map length batches))"
    by blast
  have "sint (entries input'') = sint (entries input) + int (sum_list (map length batches))
        \<and> sint (entries input) \<le> sint (entries input'')"
    if "sint (entries input) + int (sum_list (map length batches)) < 2 ^ 63"
    using sint_add_of_nat [OF that] b(2) by simp
  with b show "\<exists>batches. port' = port @ batches
         \<and> entries input'' = entries input + of_nat (sum_list (map length batches))
         \<and> (sint (entries input) + int (sum_list (map length batches)) < 2 ^ 63 \<longrightarrow>
              sint (entries input'') = sint (entries input) + int (sum_list (map length batches))
              \<and> sint (entries input) \<le> sint (entries input''))"
    by blast
qed

theorem totalEntries_accounting_witness:
  "decodeEntries (\<lambda>f. 0) (\<lambda>b. Inl (CodecError ''unexpected''))
      (Inr [VBytes ''app.log'', VUint64 1000, VMap [(''message'', VBytes ''hi'')]])
      \<lparr>entries = 0\<rparr>
     = (Inr [\<lparr>Tag = ''app.log'', Timestamp = 1000, Data = [(''message'', VString ''hi'')]\<rparr>],
        \<lparr>entries = 1\<rparr>)
   \<and> sint (entries \<lparr>entries = 0\<rparr>) + int (length
        [\<lparr>Tag = ''app.log'', Timestamp = 1000, Data = [(''message'', VString ''hi'')]\<rparr>]) < 2 ^ 63
   \<and> sint (entries \<lparr>entries = 1\<rparr>) = 1
   \<and> decodeEntries (\<lambda>f. 0) (\<lambda>b. Inl (CodecError ''unexpected''))
      (Inr [VBytes ''t'', VNil, VNil]) \<lparr>entries = 1\<rparr>
     = (Inl (Err (UnknownType VNil)), \<lparr>entries = 1\<rparr>)
   \<and> handle (\<lambda>f. 0) (\<lambda>b. Inl (CodecError ''unexpected''))
     [Inr [VBytes ''app.log'', VUint64 1000, VMap [(''message'', VBytes ''hi'')]],
      Inl (NetError True),
      Inr [VBytes ''t'', VSlice [VSlice [VUint64 1, VMap [(''a'', VUint64 1)]],
                                 VSlice [VUint64 2, VMap [(''a'', VUint64 2)]]]],
      Inr [VBytes ''t'', VNil, VNil]]
     (\<lparr>entries = 0\<rparr>, [])
   = (Closed (UnknownType VNil), \<lparr>entries = 3\<rparr>,
      [[\<lparr>Tag = ''app.log'', Timestamp = 1000, Data = [(''message'', VString ''hi'')]\<rparr>],
       [\<lparr>Tag = ''t'', Timestamp = 1, Data = [(''a'', VUint64 1)]\<rparr>,
        \<lparr>Tag = ''t'', Timestamp = 2, Data = [(''a'', VUint64 2)]\<rparr>]])
   \<and> sint (entries \<lparr>entries = 3\<rparr>) = 3"
  using totalEntries_accounting
    [of "\<lambda>f. 0" "\<lambda>b. Inl (CodecError ''unexpected'')"
        "Inr [VBytes ''app.log'', VUint64 1000, VMap [(''message'', VBytes ''hi'')]]"
        "\<lparr>entries = 0\<rparr>"
        "[\<lparr>Tag = ''app.log'', Timestamp = 1000, Data = [(''message'', VString ''hi'')]\<rparr>]"
        "\<lparr>entries = 1\<rparr>"
        "Panic IndexOutOfRange"
        "[Inr [VBytes ''app.log'', VUint64 1000, VMap [(''message'', VBytes ''hi'')]],
          Inl (NetError True),
          Inr [VBytes ''t'', VSlice [VSlice [VUint64 1, VMap [(''a'', VUint64 1)]],
                                     VSlice [VUint64 2, VMap [(''a'', VUint64 2)]]]],
          Inr [VBytes ''t'', VNil, VNil]]"
        "[]"
        "Closed (UnknownType VNil)"
        "\<lparr>entries = 3\<rparr>"
        "[[\<lparr>Tag = ''app.log'', Timestamp = 1000, Data = [(''message'', VString ''hi'')]\<rparr>],
          [\<lparr>Tag = ''t'', Timestamp = 1, Data = [(''a'', VUint64 1)]\<rparr>,
           \<lparr>Tag = ''t'', Timestamp = 2, Data = [(''a'', VUint64 2)]\<rparr>]]"]
    totalEntries_accounting
    [of "\<lambda>f. 0" "\<lambda>b. Inl (CodecError ''unexpected'')"
        "Inr [VBytes ''t'', VNil, VNil]"
        "\<lparr>entries = 1\<rparr>" "[]" "\<lparr>entries = 1\<rparr>" "Err (UnknownType VNil)"
        "[]" "[]" "Waiting" "\<lparr>entries = 1\<rparr>" "[]"]
  by (simp add: decodeEntries_def decodeEntries_switch_def index_def assert_bytes_def
      assert_slice_def assert_uint64_def assert_map_def string_of_bytes_def is_temporary_def)

section \<open>The shares of the goroutines\<close>

lemma int_wrap_id: "- (2 ^ 63) \<le> x \<Longrightarrow> x < 2 ^ 63 \<Longrightarrow> int_wrap x = x"
proof -
  assume a: "- (2 ^ 63) \<le> x" "x < 2 ^ 63"
  have "(x + 2 ^ 63) mod 2 ^ 64 = x + 2 ^ 63"
    using a by (intro mod_pos_pos_trivial) simp_all
  then show ?thesis by (simp add: int_wrap_def)
qed

lemma int_wrap_range: "- (2 ^ 63) \<le> int_wrap x \<and> int_wrap x < 2 ^ 63"
proof -
  have "0 \<le> (x + 2 ^ 63) mod 2 ^ 64" "(x + 2 ^ 63) mod 2 ^ 64 < (2 ^ 64 :: int)"
    by simp_all
  moreover have "(2 :: int) ^ 64 = 2 * 2 ^ 63" by simp
  ultimately show ?thesis unfolding int_wrap_def by linarith
qed

lemma Run_loop_eq:
  "0 \<le> i \<Longrightarrow> Run_loop i c q r =
     map (\<lambda>j. (int j, int_wrap (q + (if int j < r then 1 else 0)))) [nat i..<nat c]"
proof (induction i c q r rule: Run_loop.induct)
  case (1 i c q r)
  show ?case
  proof (cases "i < c")
    case True
    from "1.prems" have suc: "nat (i + 1) = Suc (nat i)" by arith
    from True "1.prems" have "nat i < nat c" by arith
    then have up: "[nat i..<nat c] = nat i # [nat (i + 1)..<nat c]"
      unfolding suc by (rule upt_conv_Cons)
    have "Run_loop (i + 1) c q r =
        map (\<lambda>j. (int j, int_wrap (q + (if int j < r then 1 else 0)))) [nat (i + 1)..<nat c]"
      using "1.IH" [OF True refl] "1.prems" by simp
    with True "1.prems" up show ?thesis
      by (subst Run_loop.simps) (simp add: Let_def)
  next
    case False
    then show ?thesis by (subst Run_loop.simps) simp
  qed
qed

lemma sum_list_shares:
  "r \<le> n \<Longrightarrow>
     sum_list (map (\<lambda>j. q + (if int j < int r then 1 else 0)) [0..<n]) = int n * q + int r"
proof (induction n arbitrary: r)
  case 0
  then show ?case by simp
next
  case (Suc n)
  show ?case
  proof (cases "r = Suc n")
    case True
    have "sum_list (map (\<lambda>j. q + (if int j < int r then 1 else 0)) [0..<n])
        = sum_list (map (\<lambda>j. q + (if int j < int n then 1 else 0)) [0..<n])"
      using True by (intro arg_cong [where f = sum_list] map_cong) auto
    also have "\<dots> = int n * q + int n"
      using Suc.IH [of n] by simp
    finally show ?thesis
      using True by (simp add: algebra_simps)
  next
    case False
    with Suc.prems have "r \<le> n" by simp
    from Suc.IH [OF this] False Suc.prems show ?thesis
      by (simp add: algebra_simps)
  qed
qed

lemma quotient_less_dividend:
  fixes a c :: int
  assumes "0 \<le> a" and "0 < c" and "0 < a mod c"
  shows "a div c < a"
proof -
  have dnn: "0 \<le> a div c"
    using assms by (simp add: pos_imp_zdiv_nonneg_iff)
  have "a mod c < c"
    using assms by simp
  with assms have "2 \<le> c" by linarith
  then have "2 * (a div c) \<le> c * (a div c)"
    using dnn by (intro mult_right_mono) simp_all
  moreover have "a = c * (a div c) + a mod c" by simp
  ultimately show ?thesis
    using assms dnn by linarith
qed

text \<open>
  Claim C8. For every work item with \<open>attempts = totalRecords / recordsPerBatch\<close>
  (non-negative) and \<open>concurrency\<close> workers (at least one), worker \<open>i\<close> is started
  with \<open>attempts div concurrency\<close> attempts plus one extra if
  \<open>i < attempts mod concurrency\<close>, and the shares of the workers sum to \<open>attempts\<close>; with
  100 records, batches of 10 and 3 workers the shares are 4, 3, 3.
\<close>

theorem Run_spawn_shares:
  assumes q: "go_quo (NumberOfRecordsToSend params) (NumberOfRecordsSentAtOnce params)
                = Inr numberOfAttempts"
    and a: "0 \<le> numberOfAttempts"
    and c: "0 < Concurrency params"
  shows "Run_spawn params =
           Inr (map (\<lambda>i. (int i,
                        numberOfAttempts div Concurrency params
                          + (if int i < numberOfAttempts mod Concurrency params then 1 else 0)))
                    [0..<nat (Concurrency params)])
       \<and> sum_list (map (\<lambda>i. numberOfAttempts div Concurrency params
                          + (if int i < numberOfAttempts mod Concurrency params then 1 else 0))
                    [0..<nat (Concurrency params)]) = numberOfAttempts"
proof -
  define c where "c = Concurrency params"
  define a where "a = numberOfAttempts"
  have cpos: "0 < c"
    using c by (simp add: c_def)
  have ann: "0 \<le> a"
    using a by (simp add: a_def)
  have arange: "a < 2 ^ 63"
    using q int_wrap_range by (auto simp: go_quo_def a_def split: if_splits)
  have dnn: "0 \<le> a div c"
    using ann cpos by (simp add: pos_imp_zdiv_nonneg_iff)
  have dle: "a div c \<le> a"
  proof -
    have "1 * (a div c) \<le> c * (a div c)"
      using dnn cpos by (intro mult_right_mono) simp_all
    moreover have "a = c * (a div c) + a mod c" by simp
    moreover have "0 \<le> a mod c" using cpos by simp
    ultimately show ?thesis by linarith
  qed
  have tq: "sgn a * sgn c * (\<bar>a\<bar> div \<bar>c\<bar>) = a div c"
    using ann cpos by (cases "a = 0") simp_all
  have "int_wrap (a div c) = a div c"
    using dle dnn arange by (intro int_wrap_id) linarith+
  then have quo: "go_quo a c = Inr (a div c)"
    using cpos by (simp only: go_quo_def tq) simp
  have tr: "sgn a * (\<bar>a\<bar> mod \<bar>c\<bar>) = a mod c"
    using ann cpos by (cases "a = 0") simp_all
  have rem: "go_rem a c = Inr (a mod c)"
    using cpos by (simp only: go_rem_def tr) simp
  have wrap: "int_wrap (a div c + (if int j < a mod c then 1 else 0))
                = a div c + (if int j < a mod c then 1 else 0)" for j
  proof (cases "int j < a mod c")
    case False
    have "int_wrap (a div c + 0) = a div c + 0"
      using dle dnn arange by (intro int_wrap_id) linarith+
    with False show ?thesis by simp
  next
    case True
    then have "0 < a mod c" by linarith
    then have "a div c < a"
      using ann cpos by (intro quotient_less_dividend)
    then have "int_wrap (a div c + 1) = a div c + 1"
      using dnn arange by (intro int_wrap_id) linarith+
    with True show ?thesis by simp
  qed
  have spawn: "Run_spawn params =
      Inr (map (\<lambda>i. (int i, a div c + (if int i < a mod c then 1 else 0))) [0..<nat c])"
    using q quo rem wrap
    by (simp add: Run_spawn_def c_def [symmetric] a_def [symmetric] Run_loop_eq)
  have r: "nat (a mod c) \<le> nat c"
    using cpos by (simp add: less_imp_le)
  have rnn: "0 \<le> a mod c"
    using cpos by simp
  have "sum_list (map (\<lambda>i. a div c + (if int i < a mod c then 1 else 0)) [0..<nat c])
      = sum_list (map (\<lambda>i. a div c + (if int i < int (nat (a mod c)) then 1 else 0)) [0..<nat c])"
    using rnn by simp
  also have "\<dots> = int (nat c) * (a div c) + int (nat (a mod c))"
    by (rule sum_list_shares [OF r])
  also have "\<dots> = a"
    using cpos rnn by simp
  finally show ?thesis
    using spawn by (simp add: c_def a_def)
qed

theorem Run_spawn_shares_witness:
  "go_quo (NumberOfRecordsToSend \<lparr>NumberOfRecordsToSend = 100, NumberOfRecordsSentAtOnce = 10,
                                  Concurrency = 3, MaxRetryCount = 5\<rparr>)
          (NumberOfRecordsSentAtOnce \<lparr>NumberOfRecordsToSend = 100, NumberOfRecordsSentAtOnce = 10,
                                      Concurrency = 3, MaxRetryCount = 5\<rparr>) = Inr 10
   \<and> (0 :: int) \<le> 10
   \<and> 0 < Concurrency \<lparr>NumberOfRecordsToSend = 100, NumberOfRecordsSentAtOnce = 10,
                       Concurrency = 3, MaxRetryCount = 5\<rparr>
   \<and> Run_spawn \<lparr>NumberOfRecordsToSend = 100, NumberOfRecordsSentAtOnce = 10,
                 Concurrency = 3, MaxRetryCount = 5\<rparr> = Inr [(0, 4), (1, 3), (2, 3)]
   \<and> sum_list [4, 3, 3 :: int] = 10"
  using Run_spawn_shares
    [of "\<lparr>NumberOfRecordsToSend = 100, NumberOfRecordsSentAtOnce = 10,
          Concurrency = 3, MaxRetryCount = 5\<rparr>" 10]
  by (simp add: go_quo_def int_wrap_def upt_rec)

section \<open>Exhausting the dial retries\<close>

lemma foldl_Exited: "foldl process_step Exited t = Exited"
  by (induction t) auto

lemma dial_budget_exhausted:
  assumes "k < length gs" and "position (gs ! k) = Dialing m" and "0 \<le> m" and "m < 2 ^ 63"
    and "take (nat m + 1) (filter (\<lambda>e. fst e = k) t) = replicate (nat m + 1) (k, DialError)"
  shows "foldl process_step (Running gs) t = Exited"
  using assms
proof (induction t arbitrary: gs m)
  case Nil
  then show ?case by simp
next
  case (Cons e t)
  obtain j ev where e: "e = (j, ev)" by (cases e)
  show ?case
  proof (cases "j = k")
    case True
    from Cons.prems(5) e True have ev: "ev = DialError"
      and rest: "take (nat m) (filter (\<lambda>e. fst e = k) t) = replicate (nat m) (k, DialError)"
      by simp_all
    show ?thesis
    proof (cases "m = 0")
      case True
      have "int_wrap (- 1) = - 1" by (intro int_wrap_id) simp_all
      with True \<open>j = k\<close> ev e Cons.prems(1,2) show ?thesis
        by (simp add: foldl_Exited)
    next
      case False
      with Cons.prems(3,4) have w: "int_wrap (m - 1) = m - 1"
        by (intro int_wrap_id) linarith+
      let ?gs = "gs[k := (gs ! k)\<lparr>position := Dialing (m - 1)\<rparr>]"
      from False Cons.prems(3) w \<open>j = k\<close> ev e Cons.prems(1,2)
      have step: "process_step (Running gs) e = Running ?gs"
        by simp
      from False Cons.prems(3) have n: "nat (m - 1) + 1 = nat m" by arith
      have "foldl process_step (Running ?gs) t = Exited"
      proof (rule Cons.IH [of ?gs "m - 1"])
        show "k < length ?gs" using Cons.prems(1) by simp
        show "position (?gs ! k) = Dialing (m - 1)" using Cons.prems(1) by simp
        show "0 \<le> m - 1" using False Cons.prems(3) by simp
        show "m - 1 < 2 ^ 63" using Cons.prems(4) by simp
        show "take (nat (m - 1) + 1) (filter (\<lambda>e. fst e = k) t)
            = replicate (nat (m - 1) + 1) (k, DialError)"
          using rest unfolding n .
      qed
      with step show ?thesis by simp
    qed
  next
    case False
    from Cons.prems(5) e False
    have rest: "take (nat m + 1) (filter (\<lambda>e. fst e = k) t) = replicate (nat m + 1) (k, DialError)"
      by simp
    show ?thesis
    proof (cases "process_step (Running gs) e")
      case Exited
      then show ?thesis by (simp add: foldl_Exited)
    next
      case (Running gs')
      then have "length gs' = length gs \<and> gs' ! k = gs ! k"
        using False e by (auto split: if_splits option.splits)
      with Cons.prems(1,2) have "k < length gs'" "position (gs' ! k) = Dialing m"
        by simp_all
      from Cons.IH [OF this Cons.prems(3,4) rest] Running show ?thesis by simp
    qed
  qed
qed

text \<open>
  Claim C4, as stated, fails. Two goroutines with one attempt each and no retry: when
  the network lets goroutine 1 dial and send, it signals; when the dial of goroutine 0
  fails first, \<^verbatim>\<open>log.Fatal\<close> exits the process, and goroutine 1 never signals, with
  the same answers of the network.
\<close>

theorem retry_exhausted_stops_siblings:
  "Run \<lparr>NumberOfRecordsToSend = 2, NumberOfRecordsSentAtOnce = 1, Concurrency = 2,
        MaxRetryCount = 0\<rparr> [(1, DialOk), (1, SendOk)]
     = Inr (Running [\<lparr>attempts = 1, position = Dialing 0\<rparr>,
                     \<lparr>attempts = 1, position = Signalled\<rparr>])
   \<and> signalled (Running [\<lparr>attempts = 1, position = Dialing 0\<rparr>,
                          \<lparr>attempts = 1, position = Signalled\<rparr>]) 1
   \<and> Run \<lparr>NumberOfRecordsToSend = 2, NumberOfRecordsSentAtOnce = 1, Concurrency = 2,
          MaxRetryCount = 0\<rparr> [(0, DialError), (1, DialOk), (1, SendOk)]
     = Inr Exited
   \<and> \<not> signalled Exited 1"
  by (simp add: Run_def Run_spawn_def go_quo_def go_rem_def int_wrap_def Run_loop.simps
      signalled_def)

text \<open>
  Claim C4, amended. When the dial retry budget of a load-generator worker goes negative
  (its first \<open>MaxRetryCount + 1\<close> dial attempts all fail), \<^verbatim>\<open>log.Fatal\<close> ends the
  whole process: whatever the other workers were doing and whatever the network answers
  afterwards (\<open>later\<close>), the run is over, and no worker signals completion in the
  exited process. (\<open>MaxRetryCount\<close> is a non-negative \<^verbatim>\<open>int\<close>; the schedule is any
  interleaving in which the first \<open>MaxRetryCount + 1\<close> events of worker \<open>k\<close> are dial
  failures.)
\<close>

theorem retry_exhausted_exits_process:
  assumes "Run_spawn params = Inr spawned" and "k < length spawned"
    and "0 \<le> MaxRetryCount params" and "MaxRetryCount params < 2 ^ 63"
    and "take (nat (MaxRetryCount params) + 1) (filter (\<lambda>e. fst e = k) schedule)
           = replicate (nat (MaxRetryCount params) + 1) (k, DialError)"
  shows "Run params schedule = Inr Exited
       \<and> Run params (schedule @ later) = Inr Exited
       \<and> \<not> signalled Exited j"
proof -
  let ?gs = "map (\<lambda>(id, n). \<lparr>attempts = n, position = Dialing (MaxRetryCount params)\<rparr>) spawned"
  have "foldl process_step (Running ?gs) schedule = Exited"
  proof (rule dial_budget_exhausted [OF _ _ assms(3,4,5)])
    show "k < length ?gs" using assms(2) by simp
    show "position (?gs ! k) = Dialing (MaxRetryCount params)"
      using assms(2) by (simp add: case_prod_beta)
  qed
  with assms(1) show ?thesis
    by (simp add: Run_def foldl_Exited signalled_def)
qed

theorem retry_exhausted_exits_process_witness:
  "Run_spawn \<lparr>NumberOfRecordsToSend = 2, NumberOfRecordsSentAtOnce = 1, Concurrency = 2,
              MaxRetryCount = 1\<rparr> = Inr [(0, 1), (1, 1)]
   \<and> 0 < length [(0 :: int, 1 :: int), (1, 1)]
   \<and> 0 \<le> MaxRetryCount \<lparr>NumberOfRecordsToSend = 2, NumberOfRecordsSentAtOnce = 1,
                            Concurrency = 2, MaxRetryCount = 1\<rparr>
   \<and> MaxRetryCount \<lparr>NumberOfRecordsToSend = 2, NumberOfRecordsSentAtOnce = 1,
                       Concurrency = 2, MaxRetryCount = 1\<rparr> < 2 ^ 63
   \<and> take (nat 1 + 1)
        (filter (\<lambda>e. fst e = 0)
           [(0, DialError), (1, DialOk), (0, DialError)])
       = replicate (nat 1 + 1) (0 :: nat, DialError)
   \<and> Run \<lparr>NumberOfRecordsToSend = 2, NumberOfRecordsSentAtOnce = 1, Concurrency = 2,
          MaxRetryCount = 1\<rparr> [(0, DialError), (1, DialOk), (0, DialError)]
       = Inr Exited
   \<and> Run \<lparr>NumberOfRecordsToSend = 2, NumberOfRecordsSentAtOnce = 1, Concurrency = 2,
          MaxRetryCount = 1\<rparr> ([(0, DialError), (1, DialOk), (0, DialError)] @ [(1, SendOk)])
       = Inr Exited
   \<and> \<not> signalled Exited 1"
  using retry_exhausted_exits_process
    [of "\<lparr>NumberOfRecordsToSend = 2, NumberOfRecordsSentAtOnce = 1, Concurrency = 2,
          MaxRetryCount = 1\<rparr>"
        "[(0, 1), (1, 1)]" 0
        "[(0, DialError), (1, DialOk), (0, DialError)]" "[(1, SendOk)]" 1]
  by (simp add: Run_spawn_def go_quo_def go_rem_def int_wrap_def Run_loop.simps
      numeral_2_eq_2)


end
